theory Spec2Isabelle
  imports Main "HOL-Library.Word" "HOL-Library.AList"
begin

section \<open>The presence and notification worker (src/index.js)\<close>

text \<open>
  The worker keeps two module-level JavaScript \<^verbatim>\<open>Map\<close>s, \<^verbatim>\<open>activeUsers\<close> and
  \<^verbatim>\<open>pendingNotifications\<close>, and one handler \<^verbatim>\<open>fetch\<close> that sweeps stale users and
  then routes on path and method. The embedding below follows the source block by block:
  the two maps are the state, every handler takes the state and returns the response
  together with the new state, and each read of \<^verbatim>\<open>Date.now()\<close> is a parameter.
\<close>

subsection \<open>JavaScript values\<close>

text \<open>
  A JavaScript string is a sequence of UTF-16 code units. The literals of the source are
  ASCII and are written through \<open>ascii\<close>.
\<close>

type_synonym jsstring = "16 word list"

definition ascii :: "string \<Rightarrow> jsstring" where
  "ascii = map of_char"

text \<open>
  The value bound to \<^verbatim>\<open>username\<close> after destructuring the parsed JSON body. A missing
  property gives \<open>Undefined\<close>. Numbers are the integer-valued ones; objects and arrays
  (which a \<^verbatim>\<open>Map\<close> compares by identity) are not represented. On these values the
  key comparison of a \<^verbatim>\<open>Map\<close> (SameValueZero) is equality.
\<close>

datatype jsval = Undefined | Null | Bool bool | Num int | Str jsstring

text \<open>\<^verbatim>\<open>!username\<close> is \<open>\<not> truthy username\<close>.\<close>

fun truthy :: "jsval \<Rightarrow> bool" where
  "truthy Undefined = False"
| "truthy Null = False"
| "truthy (Bool b) = b"
| "truthy (Num n) = (n \<noteq> 0)"
| "truthy (Str s) = (s \<noteq> [])"

text \<open>
  \<^verbatim>\<open>String.prototype.trim\<close> strips the code units that ECMAScript calls WhiteSpace or
  LineTerminator from both ends: TAB, LF, VT, FF, CR, SPACE, NBSP, U+1680,
  U+2000..U+200A, U+2028, U+2029, U+202F, U+205F, U+3000 and U+FEFF.
\<close>

definition white_space :: "16 word list" where
  "white_space =
     [0x0009, 0x000A, 0x000B, 0x000C, 0x000D, 0x0020, 0x00A0, 0x1680,
      0x2000, 0x2001, 0x2002, 0x2003, 0x2004, 0x2005, 0x2006, 0x2007,
      0x2008, 0x2009, 0x200A, 0x2028, 0x2029, 0x202F, 0x205F, 0x3000, 0xFEFF]"

definition is_white_space :: "16 word \<Rightarrow> bool" where
  "is_white_space c = (c \<in> set white_space)"

definition trim :: "jsstring \<Rightarrow> jsstring" where
  "trim s = rev (dropWhile is_white_space (rev (dropWhile is_white_space s)))"

subsection \<open>The two maps\<close>

text \<open>
  A \<^verbatim>\<open>Map\<close> iterates in insertion order, \<^verbatim>\<open>set\<close> on a key already there replaces the
  value in place and on a new key appends, \<^verbatim>\<open>delete\<close> removes the entry: an association
  list with \<^const>\<open>AList.update\<close> and \<^const>\<open>AList.delete\<close>. The keys of a \<^verbatim>\<open>Map\<close> are
  distinct, which is the invariant \<open>distinct_keys\<close> further down.
\<close>

type_synonym ('k, 'v) jsmap = "('k \<times> 'v) list"

definition Map_has :: "('k, 'v) jsmap \<Rightarrow> 'k \<Rightarrow> bool" where
  "Map_has m k = (map_of m k \<noteq> None)"

definition Map_get :: "('k, 'v) jsmap \<Rightarrow> 'k \<Rightarrow> 'v option" where
  "Map_get m k = map_of m k"

definition Map_set :: "'k \<Rightarrow> 'v \<Rightarrow> ('k, 'v) jsmap \<Rightarrow> ('k, 'v) jsmap" where
  "Map_set k v m = AList.update k v m"

definition Map_delete :: "'k \<Rightarrow> ('k, 'v) jsmap \<Rightarrow> ('k, 'v) jsmap" where
  "Map_delete k m = AList.delete k m"

text \<open>The objects stored in \<^verbatim>\<open>activeUsers\<close> and in \<^verbatim>\<open>pendingNotifications\<close>.
  Times are the integer milliseconds of \<^verbatim>\<open>Date.now()\<close>.\<close>

record presence =
  username :: jsval
  lastSeen :: int
  loginTime :: int

record notification =
  ntype :: string
  timestamp :: int

record state =
  activeUsers :: "(jsval, presence) jsmap"
  pendingNotifications :: "(jsval, notification) jsmap"

definition init :: state where
  "init = \<lparr>activeUsers = [], pendingNotifications = []\<rparr>"

definition distinct_keys :: "state \<Rightarrow> bool" where
  "distinct_keys s = (distinct (map fst (activeUsers s)) \<and> distinct (map fst (pendingNotifications s)))"

definition ADMIN_USERNAME :: jsstring where
  "ADMIN_USERNAME = ascii ''admin0707''"

subsection \<open>Requests and responses\<close>

text \<open>
  What reading the body yields: \<open>Unparseable\<close> when the text is empty, is not JSON or is
  the literal \<^verbatim>\<open>null\<close> (so that \<^verbatim>\<open>request.json()\<close> or the destructuring throws),
  otherwise the value of the property \<^verbatim>\<open>username\<close>.
\<close>

datatype body = Unparseable | Parsed jsval

record request =
  http_method :: string
  path :: string
  body :: body

text \<open>The JSON objects the handler answers with, one constructor per shape.\<close>

datatype payload =
    Preflight
  | Login_ok bool jsstring
  | Failure string
  | Success
  | Users "presence list" nat
  | Notified nat
  | Has_notification notification
  | No_notification
  | Health nat
  | Error string

record response =
  status :: nat
  payload :: payload

definition handleOptions :: response where
  "handleOptions = \<lparr>status = 200, payload = Preflight\<rparr>"

definition jsonResponse :: "payload \<Rightarrow> nat \<Rightarrow> response" where
  "jsonResponse data st = \<lparr>status = st, payload = data\<rparr>"

subsection \<open>cleanupInactiveUsers\<close>

text \<open>
  The loop visits the entries of \<^verbatim>\<open>activeUsers\<close> and deletes the current one when it is
  older than the timeout. Deleting the entry being visited does not disturb the iteration
  of a \<^verbatim>\<open>Map\<close>, so the loop runs over the entries the map had at the start.
  \<open>now\<close> is the value of \<^verbatim>\<open>Date.now()\<close> read at the top.
\<close>

definition timeout :: int where
  "timeout = 10000"

fun cleanup_loop :: "int \<Rightarrow> (jsval \<times> presence) list \<Rightarrow> state \<Rightarrow> state" where
  "cleanup_loop now [] s = s"
| "cleanup_loop now ((name, data) # rest) s =
     cleanup_loop now rest
       (if now - lastSeen data > timeout
        then s\<lparr>activeUsers := Map_delete name (activeUsers s)\<rparr>
        else s)"

definition cleanupInactiveUsers :: "int \<Rightarrow> state \<Rightarrow> state" where
  "cleanupInactiveUsers now s = cleanup_loop now (activeUsers s) s"

subsection \<open>The blocks of the handler\<close>

text \<open>Lines 98--106: the heartbeat's update of \<^verbatim>\<open>lastSeen\<close>, or a new entry.\<close>

definition registerOrTouch :: "jsval \<Rightarrow> int \<Rightarrow> state \<Rightarrow> state" where
  "registerOrTouch name now s =
     (case Map_get (activeUsers s) name of
        Some data \<Rightarrow>
          s\<lparr>activeUsers := Map_set name (data\<lparr>lastSeen := now\<rparr>) (activeUsers s)\<rparr>
      | None \<Rightarrow>
          s\<lparr>activeUsers :=
              Map_set name \<lparr>username = name, lastSeen = now, loginTime = now\<rparr> (activeUsers s)\<rparr>)"

text \<open>Line 119.\<close>

definition remove :: "jsval \<Rightarrow> state \<Rightarrow> state" where
  "remove name s = s\<lparr>activeUsers := Map_delete name (activeUsers s)\<rparr>"

text \<open>Lines 131--135, 140 and 195, and the test of lines 98 and 152.\<close>

definition listActive :: "state \<Rightarrow> presence list" where
  "listActive s = map snd (activeUsers s)"

definition count :: "state \<Rightarrow> nat" where
  "count s = length (activeUsers s)"

definition isActive :: "jsval \<Rightarrow> state \<Rightarrow> bool" where
  "isActive name s = Map_has (activeUsers s) name"

text \<open>Lines 153--156 and 167--170: the notification written by both notify routes.\<close>

definition setFor :: "jsval \<Rightarrow> int \<Rightarrow> state \<Rightarrow> state" where
  "setFor name now s =
     s\<lparr>pendingNotifications :=
         Map_set name \<lparr>ntype = ''sound'', timestamp = now\<rparr> (pendingNotifications s)\<rparr>"

text \<open>Lines 165--172: the loop over the entries of \<^verbatim>\<open>activeUsers\<close>, counting.\<close>

fun notify_loop :: "int \<Rightarrow> (jsval \<times> presence) list \<Rightarrow> state \<times> nat \<Rightarrow> state \<times> nat" where
  "notify_loop now [] (s, n) = (s, n)"
| "notify_loop now ((name, data) # rest) (s, n) = notify_loop now rest (setFor name now s, n + 1)"

definition broadcastToAllPresent :: "int \<Rightarrow> state \<Rightarrow> state \<times> nat" where
  "broadcastToAllPresent now s = notify_loop now (activeUsers s) (s, 0)"

text \<open>Lines 184--190: read the pending notification and delete it.\<close>

definition takeFor :: "jsval \<Rightarrow> state \<Rightarrow> notification option \<times> state" where
  "takeFor name s =
     (if Map_has (pendingNotifications s) name
      then (Map_get (pendingNotifications s) name,
            s\<lparr>pendingNotifications := Map_delete name (pendingNotifications s)\<rparr>)
      else (None, s))"

subsection \<open>The routes\<close>

text \<open>
  \<^verbatim>\<open>await request.json()\<close> followed by the destructuring either throws or binds
  \<^verbatim>\<open>username\<close>. A throw leaves the \<^verbatim>\<open>try\<close> block; it is the \<open>Inl\<close> of the result.
\<close>

datatype exn = Thrown

definition request_json :: "request \<Rightarrow> exn + jsval" where
  "request_json req = (case body req of Unparseable \<Rightarrow> Inl Thrown | Parsed v \<Rightarrow> Inr v)"

definition login :: "request \<Rightarrow> int \<Rightarrow> state \<Rightarrow> exn + response \<times> state" where
  "login req now s =
     (case request_json req of
        Inl e \<Rightarrow> Inl e
      | Inr name \<Rightarrow>
          (case name of
             Str u \<Rightarrow>
               if \<not> truthy name \<or> trim u = []
               then Inr (jsonResponse (Failure ''Invalid username'') 400, s)
               else
                 let trimmedUsername = trim u;
                     isAdmin = (trimmedUsername = ADMIN_USERNAME)
                 in Inr (jsonResponse (Login_ok isAdmin trimmedUsername) 200,
                         if \<not> isAdmin
                         then s\<lparr>activeUsers :=
                                  Map_set (Str trimmedUsername)
                                    \<lparr>username = Str trimmedUsername, lastSeen = now, loginTime = now\<rparr>
                                    (activeUsers s)\<rparr>
                         else s)
           | _ \<Rightarrow> Inr (jsonResponse (Failure ''Invalid username'') 400, s)))"

definition heartbeat :: "request \<Rightarrow> int \<Rightarrow> state \<Rightarrow> exn + response \<times> state" where
  "heartbeat req now s =
     (case request_json req of
        Inl e \<Rightarrow> Inl e
      | Inr name \<Rightarrow>
          if \<not> truthy name
          then Inr (jsonResponse (Failure ''Username required'') 400, s)
          else Inr (jsonResponse Success 200, registerOrTouch name now s))"

text \<open>The inner \<^verbatim>\<open>try\<close> of the logout route swallows what parsing throws.\<close>

definition logout :: "request \<Rightarrow> state \<Rightarrow> exn + response \<times> state" where
  "logout req s =
     Inr (jsonResponse Success 200,
          (case request_json req of
             Inl e \<Rightarrow> s
           | Inr name \<Rightarrow> if truthy name then remove name s else s))"

definition users :: "state \<Rightarrow> exn + response \<times> state" where
  "users s = Inr (jsonResponse (Users (listActive s) (length (listActive s))) 200, s)"

definition notify :: "request \<Rightarrow> int \<Rightarrow> state \<Rightarrow> exn + response \<times> state" where
  "notify req now s =
     (case request_json req of
        Inl e \<Rightarrow> Inl e
      | Inr name \<Rightarrow>
          if \<not> truthy name
          then Inr (jsonResponse (Failure ''Username required'') 400, s)
          else if Map_has (activeUsers s) name
          then Inr (jsonResponse Success 200, setFor name now s)
          else Inr (jsonResponse (Failure ''User not found'') 404, s))"

definition notify_all :: "int \<Rightarrow> state \<Rightarrow> exn + response \<times> state" where
  "notify_all now s =
     (case broadcastToAllPresent now s of
        (s', n) \<Rightarrow> Inr (jsonResponse (Notified n) 200, s'))"

definition check_notification :: "request \<Rightarrow> state \<Rightarrow> exn + response \<times> state" where
  "check_notification req s =
     (case request_json req of
        Inl e \<Rightarrow> Inl e
      | Inr name \<Rightarrow>
          if \<not> truthy name
          then Inr (jsonResponse (Failure ''Username required'') 400, s)
          else
            (case takeFor name s of
               (Some n, s') \<Rightarrow> Inr (jsonResponse (Has_notification n) 200, s')
             | (None, s') \<Rightarrow> Inr (jsonResponse No_notification 200, s')))"

definition health :: "state \<Rightarrow> exn + response \<times> state" where
  "health s = Inr (jsonResponse (Health (count s)) 200, s)"

text \<open>The chain of \<^verbatim>\<open>if\<close>s inside the outer \<^verbatim>\<open>try\<close>, in the order of the source.\<close>

definition route :: "request \<Rightarrow> int \<Rightarrow> state \<Rightarrow> exn + response \<times> state" where
  "route req now s =
     (if path req = ''/login'' \<and> http_method req = ''POST'' then login req now s
      else if path req = ''/heartbeat'' \<and> http_method req = ''POST'' then heartbeat req now s
      else if path req = ''/logout'' \<and> http_method req = ''POST'' then logout req s
      else if path req = ''/users'' \<and> http_method req = ''GET'' then users s
      else if path req = ''/notify'' \<and> http_method req = ''POST'' then notify req now s
      else if path req = ''/notify-all'' \<and> http_method req = ''POST'' then notify_all now s
      else if path req = ''/check-notification'' \<and> http_method req = ''POST''
        then check_notification req s
      else if path req = ''/health'' then health s
      else Inr (jsonResponse (Error ''Not found'') 404, s))"

text \<open>
  \<^verbatim>\<open>fetch\<close>: the preflight answer, then the sweep, then the routes, with the outer
  \<^verbatim>\<open>catch\<close> answering 500. \<open>now0\<close> is the clock read by the sweep and \<open>now\<close> the
  clock read by the route (the body is awaited in between; inside a route the runtime's
  clock does not advance, so its reads of \<^verbatim>\<open>Date.now()\<close> agree). The routes change
  the maps only after the last point that can throw, so the state at the \<^verbatim>\<open>catch\<close>
  is the swept one.
\<close>

definition fetch :: "request \<Rightarrow> int \<Rightarrow> int \<Rightarrow> state \<Rightarrow> response \<times> state" where
  "fetch req now0 now s =
     (if http_method req = ''OPTIONS'' then (handleOptions, s)
      else
        let s1 = cleanupInactiveUsers now0 s
        in (case route req now s1 of
              Inr r \<Rightarrow> r
            | Inl e \<Rightarrow> (jsonResponse (Error ''Internal server error'') 500, s1)))"

text \<open>A run of the worker: requests handled one after the other, each with its two clock
  readings.\<close>

fun run :: "state \<Rightarrow> (request \<times> int \<times> int) list \<Rightarrow> state" where
  "run s [] = s"
| "run s ((req, now0, now) # rest) = run (snd (fetch req now0 now s)) rest"

text \<open>Requests as the clients send them: a POST whose JSON body has the given
  \<^verbatim>\<open>username\<close>, and a GET.\<close>

definition post :: "string \<Rightarrow> jsval \<Rightarrow> request" where
  "post p name = \<lparr>http_method = ''POST'', path = p, body = Parsed name\<rparr>"

definition get :: "string \<Rightarrow> request" where
  "get p = \<lparr>http_method = ''GET'', path = p, body = Unparseable\<rparr>"

section \<open>Properties\<close>

subsection \<open>The sweep as a filter\<close>

lemma cleanup_loop_pending:
  "pendingNotifications (cleanup_loop now es s) = pendingNotifications s"
  by (induction now es s rule: cleanup_loop.induct) simp_all

lemma cleanup_loop_active:
  "activeUsers (cleanup_loop now es s) =
     filter (\<lambda>(k, d). k \<notin> fst ` {e \<in> set es. now - lastSeen (snd e) > timeout}) (activeUsers s)"
proof (induction now es s rule: cleanup_loop.induct)
  case (1 now s)
  then show ?case by simp
next
  case (2 now name data rest s)
  show ?case
  proof (cases "now - lastSeen data > timeout")
    case True
    have "name \<in> fst ` {e \<in> set ((name, data) # rest). now - lastSeen (snd e) > timeout}"
      using True by force
    then show ?thesis
      unfolding cleanup_loop.simps "2.IH"
      using True by (auto simp: Map_delete_def AList.delete_eq intro!: filter_cong)
  next
    case False
    then show ?thesis
      unfolding cleanup_loop.simps "2.IH"
      by (auto intro!: filter_cong)
  qed
qed

lemma filter_expired_keys:
  assumes "distinct (map fst m)"
  shows "filter (\<lambda>(k, d). k \<notin> fst ` {e \<in> set m. P (snd e)}) m = filter (\<lambda>(k, d). \<not> P d) m"
proof (rule filter_cong[OF refl])
  fix x assume x: "x \<in> set m"
  obtain k d where kd: "x = (k, d)" by (cases x)
  have "k \<in> fst ` {e \<in> set m. P (snd e)} \<longleftrightarrow> P d"
  proof
    assume "k \<in> fst ` {e \<in> set m. P (snd e)}"
    then obtain d' where d': "(k, d') \<in> set m" "P d'" by auto
    from assms x d'(1) have "d' = d" unfolding kd by (metis eq_key_imp_eq_value)
    with d'(2) show "P d" by simp
  next
    assume "P d"
    with x kd show "k \<in> fst ` {e \<in> set m. P (snd e)}" by force
  qed
  then show "(case x of (k, d) \<Rightarrow> k \<notin> fst ` {e \<in> set m. P (snd e)}) = (case x of (k, d) \<Rightarrow> \<not> P d)"
    by (simp add: kd)
qed

lemma cleanup_active:
  assumes "distinct (map fst (activeUsers s))"
  shows "activeUsers (cleanupInactiveUsers now s) =
           filter (\<lambda>(k, d). \<not> now - lastSeen d > timeout) (activeUsers s)"
  unfolding cleanupInactiveUsers_def cleanup_loop_active
  using filter_expired_keys[OF assms, of "\<lambda>d. now - lastSeen d > timeout"] by simp

lemma cleanup_pending:
  "pendingNotifications (cleanupInactiveUsers now s) = pendingNotifications s"
  by (simp add: cleanupInactiveUsers_def cleanup_loop_pending)

lemma cleanup_eq:
  assumes "distinct (map fst (activeUsers s))"
  shows "cleanupInactiveUsers now s =
           s\<lparr>activeUsers := filter (\<lambda>(k, d). \<not> now - lastSeen d > timeout) (activeUsers s)\<rparr>"
  using cleanup_active[OF assms, of now] cleanup_pending[of now s]
  by (cases s, cases "cleanupInactiveUsers now s") simp

lemma distinct_keys_cleanup: "distinct_keys s \<Longrightarrow> distinct_keys (cleanupInactiveUsers now s)"
  by (simp add: distinct_keys_def cleanup_active cleanup_pending distinct_map_filter)

subsection \<open>Lookups in a filtered map\<close>

lemma map_of_filter_distinct:
  assumes "distinct (map fst m)"
  shows "map_of (filter (\<lambda>(k, v). P v) m) k =
           (case map_of m k of None \<Rightarrow> None | Some v \<Rightarrow> if P v then Some v else None)"
  using assms
proof (induction m)
  case Nil
  then show ?case by simp
next
  case (Cons e m)
  obtain k' v' where e: "e = (k', v')" by (cases e)
  from Cons.prems have notin: "k' \<notin> fst ` set m" and dm: "distinct (map fst m)"
    by (simp_all add: e)
  have none: "map_of m k' = None"
    using notin by (simp add: map_of_eq_None_iff)
  show ?case
    using Cons.IH[OF dm] none by (auto simp: e split: option.splits)
qed

subsection \<open>The notify-all loop\<close>

lemma notify_loop_active:
  "activeUsers (fst (notify_loop now es (s, n))) = activeUsers s"
  by (induction es arbitrary: s n) (auto simp: setFor_def)

lemma notify_loop_count:
  "snd (notify_loop now es (s, n)) = n + length es"
  by (induction es arbitrary: s n) auto

lemma notify_loop_pending:
  "map_of (pendingNotifications (fst (notify_loop now es (s, n)))) k =
     (if k \<in> fst ` set es then Some \<lparr>ntype = ''sound'', timestamp = now\<rparr>
      else map_of (pendingNotifications s) k)"
proof (induction es arbitrary: s n)
  case Nil
  then show ?case by simp
next
  case (Cons e es)
  obtain name d where e: "e = (name, d)" by (cases e)
  show ?case
    using Cons.IH[of "setFor name now s" "n + 1"]
    by (simp add: e setFor_def Map_set_def update_conv')
qed

lemma notify_loop_distinct:
  "distinct (map fst (pendingNotifications s)) \<Longrightarrow>
   distinct (map fst (pendingNotifications (fst (notify_loop now es (s, n)))))"
  by (induction es arbitrary: s n) (auto simp: setFor_def Map_set_def distinct_update)

subsection \<open>Distinct keys are kept\<close>

lemma distinct_keys_init: "distinct_keys init"
  by (simp add: distinct_keys_def init_def)

lemma distinct_keys_registerOrTouch: "distinct_keys s \<Longrightarrow> distinct_keys (registerOrTouch name now s)"
  by (simp add: distinct_keys_def registerOrTouch_def Map_set_def distinct_update split: option.splits)

lemma distinct_keys_remove: "distinct_keys s \<Longrightarrow> distinct_keys (remove name s)"
  by (simp add: distinct_keys_def remove_def Map_delete_def distinct_delete)

lemma distinct_keys_setFor: "distinct_keys s \<Longrightarrow> distinct_keys (setFor name now s)"
  by (simp add: distinct_keys_def setFor_def Map_set_def distinct_update)

lemma distinct_keys_takeFor: "distinct_keys s \<Longrightarrow> distinct_keys (snd (takeFor name s))"
  by (simp add: distinct_keys_def takeFor_def Map_delete_def distinct_delete)

lemma distinct_keys_broadcast: "distinct_keys s \<Longrightarrow> distinct_keys (fst (broadcastToAllPresent now s))"
  by (simp add: distinct_keys_def broadcastToAllPresent_def notify_loop_active notify_loop_distinct)

lemma distinct_keys_route:
  assumes "distinct_keys s" and "route req now s = Inr (r, s')"
  shows "distinct_keys s'"
proof -
  have l: "login req now s = Inr (r, s') \<Longrightarrow> distinct_keys s'"
    using assms(1)
    by (auto simp: login_def distinct_keys_def Map_set_def distinct_update Let_def
        split: sum.splits jsval.splits if_splits)
  have h: "heartbeat req now s = Inr (r, s') \<Longrightarrow> distinct_keys s'"
    using distinct_keys_registerOrTouch[OF assms(1)] assms(1)
    by (auto simp: heartbeat_def split: sum.splits if_splits)
  have o: "logout req s = Inr (r, s') \<Longrightarrow> distinct_keys s'"
    using distinct_keys_remove[OF assms(1)] assms(1)
    by (auto simp: logout_def split: sum.splits if_splits)
  have n: "notify req now s = Inr (r, s') \<Longrightarrow> distinct_keys s'"
    using distinct_keys_setFor[OF assms(1)] assms(1)
    by (auto simp: notify_def split: sum.splits if_splits)
  have a: "notify_all now s = Inr (r, s') \<Longrightarrow> distinct_keys s'"
    using distinct_keys_broadcast[OF assms(1), of now]
    by (auto simp: notify_all_def split: prod.splits)
  have c: "check_notification req s = Inr (r, s') \<Longrightarrow> distinct_keys s'"
    using distinct_keys_takeFor[OF assms(1)] assms(1)
    by (auto simp: check_notification_def split: sum.splits if_splits prod.splits option.splits)
      (metis snd_conv)+
  show ?thesis
    using assms(2) l h o n a c assms(1)
    by (auto simp: route_def users_def health_def split: if_splits)
qed

lemma route_Inl_cases:
  "route req now s = Inl e \<Longrightarrow> body req = Unparseable"
  by (auto simp: route_def login_def heartbeat_def logout_def users_def notify_def
      notify_all_def check_notification_def health_def request_json_def Let_def
      split: if_splits body.splits jsval.splits prod.splits option.splits)

lemma distinct_keys_fetch: "distinct_keys s \<Longrightarrow> distinct_keys (snd (fetch req now0 now s))"
proof -
  assume w: "distinct_keys s"
  have w1: "distinct_keys (cleanupInactiveUsers now0 s)" by (rule distinct_keys_cleanup[OF w])
  show ?thesis
  proof (cases "route req now (cleanupInactiveUsers now0 s)")
    case (Inl e)
    then show ?thesis using w w1 by (simp add: fetch_def Let_def)
  next
    case (Inr p)
    obtain r s' where p: "p = (r, s')" by (cases p)
    from distinct_keys_route[OF w1 Inr[unfolded p]] show ?thesis
      using w Inr p by (simp add: fetch_def Let_def)
  qed
qed

lemma distinct_keys_run: "distinct_keys s \<Longrightarrow> distinct_keys (run s evs)"
  by (induction s evs rule: run.induct) (simp_all add: distinct_keys_fetch)

subsection \<open>Lookups after the sweep and after a heartbeat\<close>

lemma isActive_cleanup:
  assumes "distinct (map fst (activeUsers s))"
  shows "isActive u (cleanupInactiveUsers now s) =
           (case Map_get (activeUsers s) u of None \<Rightarrow> False | Some d \<Rightarrow> \<not> now - lastSeen d > timeout)"
  unfolding isActive_def Map_has_def Map_get_def cleanup_active[OF assms]
    map_of_filter_distinct[OF assms]
  by (simp split: option.splits)

lemma registerOrTouch_get:
  "Map_get (activeUsers (registerOrTouch u now s)) k =
     (if k = u
      then (case Map_get (activeUsers s) u of
              None \<Rightarrow> Some \<lparr>username = u, lastSeen = now, loginTime = now\<rparr>
            | Some d \<Rightarrow> Some (d\<lparr>lastSeen := now\<rparr>))
      else Map_get (activeUsers s) k)"
  by (simp add: registerOrTouch_def Map_get_def Map_set_def update_conv' split: option.splits)

subsection \<open>The routes of a POST\<close>

lemma fetch_post:
  "fetch (post p u) now0 now s =
     (case route (post p u) now (cleanupInactiveUsers now0 s) of
        Inr r \<Rightarrow> r
      | Inl e \<Rightarrow> (jsonResponse (Error ''Internal server error'') 500, cleanupInactiveUsers now0 s))"
  by (simp add: fetch_def post_def Let_def)

lemma route_post_heartbeat:
  "route (post ''/heartbeat'' u) now s =
     (if truthy u then Inr (jsonResponse Success 200, registerOrTouch u now s)
      else Inr (jsonResponse (Failure ''Username required'') 400, s))"
  by (simp add: route_def post_def heartbeat_def request_json_def)

lemma route_post_notify:
  "route (post ''/notify'' u) now s =
     (if \<not> truthy u then Inr (jsonResponse (Failure ''Username required'') 400, s)
      else if isActive u s then Inr (jsonResponse Success 200, setFor u now s)
      else Inr (jsonResponse (Failure ''User not found'') 404, s))"
  by (simp add: route_def post_def notify_def request_json_def isActive_def)

lemma route_post_check:
  "route (post ''/check-notification'' u) now s =
     (if \<not> truthy u then Inr (jsonResponse (Failure ''Username required'') 400, s)
      else (case Map_get (pendingNotifications s) u of
              Some n \<Rightarrow> Inr (jsonResponse (Has_notification n) 200,
                           s\<lparr>pendingNotifications := Map_delete u (pendingNotifications s)\<rparr>)
            | None \<Rightarrow> Inr (jsonResponse No_notification 200, s)))"
  by (auto simp: route_def post_def check_notification_def request_json_def takeFor_def
      Map_has_def Map_get_def split: option.splits)

lemma route_post_logout:
  "route (post ''/logout'' u) now s =
     Inr (jsonResponse Success 200, if truthy u then remove u s else s)"
  by (simp add: route_def post_def logout_def request_json_def)

lemma route_post_login:
  "route (post ''/login'' v) now s = login (post ''/login'' v) now s"
  by (simp add: route_def post_def)

lemma login_post_Str:
  "login (post p (Str u)) now s =
     (if trim u = [] then Inr (jsonResponse (Failure ''Invalid username'') 400, s)
      else Inr (jsonResponse (Login_ok (trim u = ADMIN_USERNAME) (trim u)) 200,
                if trim u = ADMIN_USERNAME then s
                else s\<lparr>activeUsers :=
                         Map_set (Str (trim u))
                           \<lparr>username = Str (trim u), lastSeen = now, loginTime = now\<rparr>
                           (activeUsers s)\<rparr>))"
  by (auto simp: login_def post_def request_json_def Let_def trim_def)

lemma cleanup_init: "cleanupInactiveUsers now init = init"
  by (simp add: cleanupInactiveUsers_def init_def)

lemma login_keeps_admin_out:
  assumes "\<not> isActive (Str ADMIN_USERNAME) s" and "login req now s = Inr (r, s')"
  shows "\<not> isActive (Str ADMIN_USERNAME) s'"
  using assms
  by (auto simp: login_def isActive_def Map_has_def Map_set_def update_conv' Let_def
      split: sum.splits jsval.splits if_splits)

lemma takeFor_setFor:
  "takeFor u (setFor u t s) =
     (Some \<lparr>ntype = ''sound'', timestamp = t\<rparr>,
      s\<lparr>pendingNotifications := Map_delete u (pendingNotifications s)\<rparr>)"
  by (simp add: takeFor_def setFor_def Map_has_def Map_get_def Map_set_def Map_delete_def
      update_conv' delete_update_same)

lemma Map_has_delete: "\<not> Map_has (Map_delete u m) u"
  by (simp add: Map_has_def Map_delete_def delete_conv')

subsection \<open>Small concrete states\<close>

lemma registerOrTouch_init:
  "registerOrTouch u t init =
     \<lparr>activeUsers = [(u, \<lparr>username = u, lastSeen = t, loginTime = t\<rparr>)], pendingNotifications = []\<rparr>"
  by (simp add: registerOrTouch_def init_def Map_get_def Map_set_def)

lemma cleanup_single:
  "cleanupInactiveUsers now \<lparr>activeUsers = [(u, d)], pendingNotifications = p\<rparr> =
     (if now - lastSeen d > 10000 then \<lparr>activeUsers = [], pendingNotifications = p\<rparr>
      else \<lparr>activeUsers = [(u, d)], pendingNotifications = p\<rparr>)"
  by (simp add: cleanupInactiveUsers_def timeout_def Map_delete_def)

lemma isActive_single:
  "isActive k \<lparr>activeUsers = [(u, d)], pendingNotifications = p\<rparr> = (k = u)"
  by (auto simp: isActive_def Map_has_def)

lemma isActive_none:
  "\<not> isActive k \<lparr>activeUsers = [], pendingNotifications = p\<rparr>"
  by (simp add: isActive_def Map_has_def)

lemma filter_update_key:
  assumes "distinct (map fst m)"
  shows "filter (\<lambda>(k, n). k = u) (AList.update u v m) = [(u, v)]"
  using assms
proof (induction m)
  case Nil
  then show ?case by simp
next
  case (Cons e m)
  obtain k' v' where e: "e = (k', v')" by (cases e)
  show ?case
  proof (cases "k' = u")
    case True
    with Cons.prems have "u \<notin> fst ` set m" by (simp add: e)
    then have "filter (\<lambda>(k, n). k = u) m = []"
      by (force simp: filter_empty_conv)
    with True show ?thesis by (simp add: e)
  next
    case False
    with Cons show ?thesis by (simp add: e)
  qed
qed

lemma setFor_setFor: "setFor u t2 (setFor u t1 s) = setFor u t2 s"
  by (simp add: setFor_def Map_set_def)

subsection \<open>Requests that leave the mailbox alone\<close>

lemma route_frame_pending:
  assumes "path req \<noteq> ''/notify''" "path req \<noteq> ''/notify-all''"
    "path req \<noteq> ''/check-notification''" "route req now s = Inr (r, s')"
  shows "pendingNotifications s' = pendingNotifications s"
  using assms
  by (auto simp: route_def login_def heartbeat_def logout_def users_def health_def
      registerOrTouch_def remove_def Let_def
      split: if_splits sum.splits jsval.splits option.splits)

lemma fetch_frame_pending:
  assumes "path req \<noteq> ''/notify''" "path req \<noteq> ''/notify-all''"
    "path req \<noteq> ''/check-notification''"
  shows "pendingNotifications (snd (fetch req now0 now s)) = pendingNotifications s"
proof (cases "http_method req = ''OPTIONS''")
  case True
  then show ?thesis by (simp add: fetch_def)
next
  case False
  show ?thesis
  proof (cases "route req now (cleanupInactiveUsers now0 s)")
    case (Inl e)
    with False show ?thesis by (simp add: fetch_def Let_def cleanup_pending)
  next
    case (Inr p)
    obtain r s' where p: "p = (r, s')" by (cases p)
    from route_frame_pending[OF assms Inr[unfolded p]] False Inr p show ?thesis
      by (simp add: fetch_def Let_def cleanup_pending)
  qed
qed

lemma fetch_check_pending:
  assumes "truthy u"
  shows "fst (fetch (post ''/check-notification'' u) now0 now s) =
           (case Map_get (pendingNotifications s) u of
              Some n \<Rightarrow> jsonResponse (Has_notification n) 200
            | None \<Rightarrow> jsonResponse No_notification 200)"
  using assms
  by (simp add: fetch_post route_post_check cleanup_pending split: option.splits)

lemma isActive_keys: "isActive k s = (k \<in> fst ` set (activeUsers s))"
  by (simp add: isActive_def Map_has_def map_of_eq_None_iff)

lemma count_card:
  assumes "distinct (map fst (activeUsers s))"
  shows "count s = card {k. isActive k s}"
proof -
  have "{k. isActive k s} = set (map fst (activeUsers s))"
    by (auto simp: isActive_keys)
  then show ?thesis
    using distinct_card[OF assms] by (simp add: count_def)
qed

lemma fetch_notify_all:
  "fetch \<lparr>http_method = ''POST'', path = ''/notify-all'', body = b\<rparr> now0 now s =
     (jsonResponse (Notified (snd (broadcastToAllPresent now (cleanupInactiveUsers now0 s)))) 200,
      fst (broadcastToAllPresent now (cleanupInactiveUsers now0 s)))"
  by (simp add: fetch_def route_def notify_all_def Let_def split: prod.splits)

subsection \<open>trim\<close>

lemma trim_Nil_iff: "trim x = [] \<longleftrightarrow> list_all is_white_space x"
proof
  assume "list_all is_white_space x"
  then have "dropWhile is_white_space x = []"
    by (metis dropWhile_eq_Nil_conv list_all_iff)
  then show "trim x = []" by (simp add: trim_def del: dropWhile_eq_Nil_conv)
next
  assume t: "trim x = []"
  show "list_all is_white_space x"
  proof (rule ccontr)
    assume "\<not> list_all is_white_space x"
    then have ne: "dropWhile is_white_space x \<noteq> []"
      by (metis dropWhile_eq_Nil_conv list_all_iff)
    then have "\<not> is_white_space (hd (dropWhile is_white_space x))"
      by (rule hd_dropWhile)
    moreover have "hd (dropWhile is_white_space x) \<in> set (rev (dropWhile is_white_space x))"
      using ne by simp
    ultimately have "dropWhile is_white_space (rev (dropWhile is_white_space x)) \<noteq> []"
      by (metis dropWhile_eq_Nil_conv)
    with t show False by (simp add: trim_def del: dropWhile_eq_Nil_conv)
  qed
qed

lemma trim_alice: "trim (ascii ''  alice  '') = ascii ''alice''"
  by (simp add: trim_def ascii_def is_white_space_def white_space_def)

lemma alice_not_admin: "ascii ''alice'' \<noteq> ADMIN_USERNAME"
  by (simp add: ADMIN_USERNAME_def ascii_def)

lemma fetch_login_Str:
  "fetch (post ''/login'' (Str x)) now0 now s =
     (if list_all is_white_space x
      then (jsonResponse (Failure ''Invalid username'') 400, cleanupInactiveUsers now0 s)
      else (jsonResponse (Login_ok (trim x = ADMIN_USERNAME) (trim x)) 200,
            if trim x = ADMIN_USERNAME then cleanupInactiveUsers now0 s
            else (cleanupInactiveUsers now0 s)
                   \<lparr>activeUsers :=
                      Map_set (Str (trim x))
                        \<lparr>username = Str (trim x), lastSeen = now, loginTime = now\<rparr>
                        (activeUsers (cleanupInactiveUsers now0 s))\<rparr>))"
  by (simp add: fetch_post route_post_login login_post_Str trim_Nil_iff)

lemma fetch_login_not_string:
  assumes "\<And>x. v \<noteq> Str x"
  shows "fetch (post ''/login'' v) now0 now s =
           (jsonResponse (Failure ''Invalid username'') 400, cleanupInactiveUsers now0 s)"
  using assms
  by (cases v) (auto simp: fetch_def route_def login_def post_def request_json_def Let_def)

lemma trim_decompose:
  "x = takeWhile is_white_space x @ trim x
         @ rev (takeWhile is_white_space (rev (dropWhile is_white_space x)))"
proof -
  let ?y = "dropWhile is_white_space x"
  have "?y = rev (dropWhile is_white_space (rev ?y)) @ rev (takeWhile is_white_space (rev ?y))"
    by (metis rev_append rev_rev_ident takeWhile_dropWhile_id)
  then have "?y = trim x @ rev (takeWhile is_white_space (rev ?y))"
    unfolding trim_def .
  moreover have "x = takeWhile is_white_space x @ ?y" by simp
  ultimately show ?thesis by metis
qed

section \<open>The properties of the specification\<close>

text \<open>
  C1 (the code departs from the specification). The login route skips the registry for
  the admin name, the heartbeat route does not: one heartbeat request whose username is
  \<^verbatim>\<open>'admin0707'\<close>, sent to the empty worker, stores a record keyed by the admin name,
  and the following \<^verbatim>\<open>GET /users\<close> lists it.
\<close>

theorem C1_heartbeat_stores_admin:
  "fetch (post ''/heartbeat'' (Str ADMIN_USERNAME)) 0 0 init =
     (jsonResponse Success 200,
      \<lparr>activeUsers =
         [(Str ADMIN_USERNAME, \<lparr>username = Str ADMIN_USERNAME, lastSeen = 0, loginTime = 0\<rparr>)],
       pendingNotifications = []\<rparr>)
   \<and> isActive (Str ADMIN_USERNAME) (snd (fetch (post ''/heartbeat'' (Str ADMIN_USERNAME)) 0 0 init))
   \<and> fst (fetch (get ''/users'') 0 0 (snd (fetch (post ''/heartbeat'' (Str ADMIN_USERNAME)) 0 0 init))) =
       jsonResponse
         (Users [\<lparr>username = Str ADMIN_USERNAME, lastSeen = 0, loginTime = 0\<rparr>] 1) 200"
proof -
  have t: "truthy (Str ADMIN_USERNAME)"
    by (simp add: ADMIN_USERNAME_def ascii_def)
  have a: "fetch (post ''/heartbeat'' (Str ADMIN_USERNAME)) 0 0 init =
     (jsonResponse Success 200,
      \<lparr>activeUsers =
         [(Str ADMIN_USERNAME, \<lparr>username = Str ADMIN_USERNAME, lastSeen = 0, loginTime = 0\<rparr>)],
       pendingNotifications = []\<rparr>)"
  proof -
    have "registerOrTouch (Str ADMIN_USERNAME) 0 init =
      \<lparr>activeUsers =
         [(Str ADMIN_USERNAME, \<lparr>username = Str ADMIN_USERNAME, lastSeen = 0, loginTime = 0\<rparr>)],
       pendingNotifications = []\<rparr>"
      by (simp add: registerOrTouch_def init_def Map_get_def Map_set_def)
    with t show ?thesis
      by (simp add: fetch_post route_post_heartbeat cleanup_init)
  qed
  have b: "fetch (get ''/users'') 0 0
             \<lparr>activeUsers =
                [(Str ADMIN_USERNAME, \<lparr>username = Str ADMIN_USERNAME, lastSeen = 0, loginTime = 0\<rparr>)],
              pendingNotifications = []\<rparr> =
           (jsonResponse
             (Users [\<lparr>username = Str ADMIN_USERNAME, lastSeen = 0, loginTime = 0\<rparr>] 1) 200,
            \<lparr>activeUsers =
                [(Str ADMIN_USERNAME, \<lparr>username = Str ADMIN_USERNAME, lastSeen = 0, loginTime = 0\<rparr>)],
              pendingNotifications = []\<rparr>)"
    by (simp add: fetch_def get_def route_def users_def listActive_def cleanupInactiveUsers_def
        timeout_def Let_def)
  show ?thesis
    unfolding a using b by (simp add: isActive_def Map_has_def)
qed

text \<open>
  C2. The sweep at time \<open>now\<close> keeps, in their order, exactly the records with
  \<open>now - lastSeen \<le> 10000\<close> and removes the others. The boundary is exclusive: a record
  with \<open>now - lastSeen = 10000\<close> survives. After \<open>registerOrTouch u t\<close>, the user is still
  active after a sweep at \<open>t + 10000\<close> and no longer active after a sweep at
  \<open>t + 10000 + 1\<close>. The hypothesis is the distinctness of the keys of the map.
\<close>

theorem C2_sweep_boundary:
  assumes "distinct (map fst (activeUsers s))"
  shows "activeUsers (cleanupInactiveUsers now s) =
           filter (\<lambda>(u, d). \<not> now - lastSeen d > 10000) (activeUsers s)
       \<and> (\<forall>u d. (u, d) \<in> set (activeUsers s) \<and> now - lastSeen d = 10000
             \<longrightarrow> (u, d) \<in> set (activeUsers (cleanupInactiveUsers now s)))
       \<and> isActive u (cleanupInactiveUsers (t + 10000) (registerOrTouch u t s))
       \<and> \<not> isActive u (cleanupInactiveUsers (t + 10000 + 1) (registerOrTouch u t s))"
proof -
  have d': "distinct (map fst (activeUsers (registerOrTouch u t s)))"
    using assms
    by (simp add: registerOrTouch_def Map_set_def distinct_update split: option.splits)
  have a: "activeUsers (cleanupInactiveUsers now s) =
           filter (\<lambda>(u, d). \<not> now - lastSeen d > 10000) (activeUsers s)"
    using cleanup_active[OF assms, of now] by (simp add: timeout_def)
  have b: "\<forall>u d. (u, d) \<in> set (activeUsers s) \<and> now - lastSeen d = 10000
             \<longrightarrow> (u, d) \<in> set (activeUsers (cleanupInactiveUsers now s))"
    unfolding a by auto
  have c: "isActive u (cleanupInactiveUsers (t + 10000) (registerOrTouch u t s))"
    unfolding isActive_cleanup[OF d'] registerOrTouch_get
    by (simp add: timeout_def split: option.splits)
  have d: "\<not> isActive u (cleanupInactiveUsers (t + 10000 + 1) (registerOrTouch u t s))"
    unfolding isActive_cleanup[OF d'] registerOrTouch_get
    by (simp add: timeout_def split: option.splits)
  from a b c d show ?thesis by blast
qed

theorem C2_sweep_boundary_witness:
  "distinct (map fst (activeUsers (registerOrTouch (Str (ascii ''bob'')) 5000 init)))
   \<and> (Str (ascii ''bob''), \<lparr>username = Str (ascii ''bob''), lastSeen = 5000, loginTime = 5000\<rparr>)
        \<in> set (activeUsers (registerOrTouch (Str (ascii ''bob'')) 5000 init))
   \<and> 15000 - lastSeen \<lparr>username = Str (ascii ''bob''), lastSeen = 5000, loginTime = 5000\<rparr> = 10000
   \<and> (Str (ascii ''bob''), \<lparr>username = Str (ascii ''bob''), lastSeen = 5000, loginTime = 5000\<rparr>)
        \<in> set (activeUsers (cleanupInactiveUsers 15000
                   (registerOrTouch (Str (ascii ''bob'')) 5000 init)))
   \<and> isActive (Str (ascii ''bob''))
       (cleanupInactiveUsers 15000 (registerOrTouch (Str (ascii ''bob'')) 5000 init))
   \<and> \<not> isActive (Str (ascii ''bob''))
       (cleanupInactiveUsers 15001 (registerOrTouch (Str (ascii ''bob'')) 5000 init))"
proof -
  let ?bob = "Str (ascii ''bob'')"
  let ?s = "registerOrTouch ?bob 5000 init"
  let ?d = "\<lparr>username = ?bob, lastSeen = 5000, loginTime = 5000\<rparr>"
  have h: "distinct (map fst (activeUsers ?s))"
    by (simp add: registerOrTouch_init)
  have h0: "distinct (map fst (activeUsers init))"
    by (simp add: init_def)
  have m: "(?bob, ?d) \<in> set (activeUsers ?s)"
    by (simp add: registerOrTouch_init)
  have e: "15000 - lastSeen ?d = 10000"
    by simp
  from C2_sweep_boundary[OF h, of 15000] m e
  have k: "(?bob, ?d) \<in> set (activeUsers (cleanupInactiveUsers 15000 ?s))"
    by blast
  from C2_sweep_boundary[OF h0, of 0 ?bob 5000]
  have a: "isActive ?bob (cleanupInactiveUsers 15000 ?s)"
    and n: "\<not> isActive ?bob (cleanupInactiveUsers 15001 ?s)"
    by simp_all
  from h m e k a n show ?thesis by blast
qed

text \<open>
  C3. A heartbeat for a non-empty username \<open>u\<close> answers success and applies
  \<open>registerOrTouch\<close> to the swept state. In any state, \<open>registerOrTouch u now\<close> gives
  \<open>u\<close> a record with \<open>loginTime = lastSeen = now\<close> when it had none, and otherwise only
  sets \<open>lastSeen\<close> of its record to \<open>now\<close>; the other records, the position of a record
  that was there, and the mailbox stay as they were.
\<close>

theorem C3_heartbeat_upsert:
  assumes "truthy u"
  shows "fetch (post ''/heartbeat'' u) now0 now s =
           (jsonResponse Success 200, registerOrTouch u now (cleanupInactiveUsers now0 s))
       \<and> Map_get (activeUsers (registerOrTouch u now s1)) u =
           (case Map_get (activeUsers s1) u of
              None \<Rightarrow> Some \<lparr>username = u, lastSeen = now, loginTime = now\<rparr>
            | Some d \<Rightarrow> Some (d\<lparr>lastSeen := now\<rparr>))
       \<and> Map_delete u (activeUsers (registerOrTouch u now s1)) = Map_delete u (activeUsers s1)
       \<and> (isActive u s1 \<longrightarrow> map fst (activeUsers (registerOrTouch u now s1)) = map fst (activeUsers s1))
       \<and> pendingNotifications (registerOrTouch u now s1) = pendingNotifications s1"
proof -
  have a: "fetch (post ''/heartbeat'' u) now0 now s =
           (jsonResponse Success 200, registerOrTouch u now (cleanupInactiveUsers now0 s))"
    using assms by (simp add: fetch_post route_post_heartbeat)
  have b: "Map_delete u (activeUsers (registerOrTouch u now s1)) = Map_delete u (activeUsers s1)"
    by (simp add: registerOrTouch_def Map_delete_def Map_set_def delete_update_same
        split: option.splits)
  have c: "isActive u s1 \<longrightarrow> map fst (activeUsers (registerOrTouch u now s1)) = map fst (activeUsers s1)"
    by (auto simp: registerOrTouch_def isActive_def Map_has_def Map_get_def Map_set_def
        update_keys map_of_eq_None_iff split: option.splits)
  have d: "pendingNotifications (registerOrTouch u now s1) = pendingNotifications s1"
    by (simp add: registerOrTouch_def split: option.splits)
  from a b c d registerOrTouch_get[of u now s1 u] show ?thesis by simp
qed

theorem C3_heartbeat_upsert_witness:
  "truthy (Str (ascii ''bob''))
   \<and> isActive (Str (ascii ''bob'')) (registerOrTouch (Str (ascii ''bob'')) 5 init)
   \<and> fetch (post ''/heartbeat'' (Str (ascii ''bob''))) 0 9 init =
       (jsonResponse Success 200, registerOrTouch (Str (ascii ''bob'')) 9 (cleanupInactiveUsers 0 init))
   \<and> Map_get (activeUsers (registerOrTouch (Str (ascii ''bob'')) 5 init)) (Str (ascii ''bob'')) =
       Some \<lparr>username = Str (ascii ''bob''), lastSeen = 5, loginTime = 5\<rparr>
   \<and> Map_get (activeUsers (registerOrTouch (Str (ascii ''bob'')) 9
                 (registerOrTouch (Str (ascii ''bob'')) 5 init))) (Str (ascii ''bob'')) =
       Some \<lparr>username = Str (ascii ''bob''), lastSeen = 9, loginTime = 5\<rparr>
   \<and> map fst (activeUsers (registerOrTouch (Str (ascii ''bob'')) 9
                 (registerOrTouch (Str (ascii ''bob'')) 5 init))) =
       map fst (activeUsers (registerOrTouch (Str (ascii ''bob'')) 5 init))"
proof -
  have h: "truthy (Str (ascii ''bob''))" by (simp add: ascii_def)
  have e: "Map_get (activeUsers init) (Str (ascii ''bob'')) = None"
    by (simp add: init_def Map_get_def)
  have i: "isActive (Str (ascii ''bob'')) (registerOrTouch (Str (ascii ''bob'')) 5 init)"
    by (simp add: isActive_def Map_has_def registerOrTouch_def init_def Map_get_def Map_set_def)
  show ?thesis
    using h e i
      C3_heartbeat_upsert[OF h, of 0 9 init "registerOrTouch (Str (ascii ''bob'')) 5 init"]
      C3_heartbeat_upsert[OF h, of 0 5 init init]
    by simp
qed

text \<open>
  C4. Taking right after setting returns the notification that was set and removes it; a
  second take returns nothing. For a non-empty username with nothing pending the take and
  the \<^verbatim>\<open>/check-notification\<close> request answer "no notification" with status 200. Over
  HTTP: after a \<^verbatim>\<open>/notify\<close> that succeeded, the first \<^verbatim>\<open>/check-notification\<close> delivers
  the notification stamped with the time of the notify, the second delivers none.
\<close>

theorem C4_take_once:
  assumes "truthy u"
  shows "takeFor u (setFor u t s) =
           (Some \<lparr>ntype = ''sound'', timestamp = t\<rparr>,
            s\<lparr>pendingNotifications := Map_delete u (pendingNotifications s)\<rparr>)
       \<and> \<not> Map_has (pendingNotifications (snd (takeFor u (setFor u t s)))) u
       \<and> fst (takeFor u (snd (takeFor u (setFor u t s)))) = None
       \<and> (\<not> Map_has (pendingNotifications s) u \<longrightarrow> takeFor u s = (None, s))
       \<and> (\<not> Map_has (pendingNotifications s) u \<longrightarrow>
            fetch (post ''/check-notification'' u) now0 now s =
              (jsonResponse No_notification 200, cleanupInactiveUsers now0 s))
       \<and> (isActive u (cleanupInactiveUsers now0 s) \<longrightarrow>
            fetch (post ''/notify'' u) now0 now s =
              (jsonResponse Success 200, setFor u now (cleanupInactiveUsers now0 s))
          \<and> fst (fetch (post ''/check-notification'' u) a0 a
                   (snd (fetch (post ''/notify'' u) now0 now s))) =
              jsonResponse (Has_notification \<lparr>ntype = ''sound'', timestamp = now\<rparr>) 200
          \<and> fst (fetch (post ''/check-notification'' u) b0 b
                   (snd (fetch (post ''/check-notification'' u) a0 a
                     (snd (fetch (post ''/notify'' u) now0 now s))))) =
              jsonResponse No_notification 200)"
proof -
  let ?s1 = "cleanupInactiveUsers now0 s"
  have p1: "\<not> Map_has (pendingNotifications (snd (takeFor u (setFor u t s)))) u"
    by (simp add: takeFor_setFor Map_has_delete)
  have p2: "fst (takeFor u (snd (takeFor u (setFor u t s)))) = None"
    using p1 by (simp add: takeFor_def)
  have p3: "\<not> Map_has (pendingNotifications s) u \<longrightarrow> takeFor u s = (None, s)"
    by (simp add: takeFor_def)
  have p4: "\<not> Map_has (pendingNotifications s) u \<longrightarrow>
            fetch (post ''/check-notification'' u) now0 now s =
              (jsonResponse No_notification 200, ?s1)"
    using assms
    by (simp add: fetch_post route_post_check cleanup_pending Map_has_def Map_get_def)
  have p5: "isActive u ?s1 \<longrightarrow>
            fetch (post ''/notify'' u) now0 now s = (jsonResponse Success 200, setFor u now ?s1)"
    using assms by (simp add: fetch_post route_post_notify)
  have get_set: "Map_get (pendingNotifications (setFor u now ?s1)) u =
                   Some \<lparr>ntype = ''sound'', timestamp = now\<rparr>"
    by (simp add: setFor_def Map_get_def Map_set_def update_conv')
  have c1: "fetch (post ''/check-notification'' u) a0 a (setFor u now ?s1) =
              (jsonResponse (Has_notification \<lparr>ntype = ''sound'', timestamp = now\<rparr>) 200,
               (cleanupInactiveUsers a0 (setFor u now ?s1))
                 \<lparr>pendingNotifications := Map_delete u (pendingNotifications (setFor u now ?s1))\<rparr>)"
    using assms get_set
    by (simp add: fetch_post route_post_check cleanup_pending)
  have c2: "fst (fetch (post ''/check-notification'' u) b0 b
              ((cleanupInactiveUsers a0 (setFor u now ?s1))
                 \<lparr>pendingNotifications := Map_delete u (pendingNotifications (setFor u now ?s1))\<rparr>)) =
            jsonResponse No_notification 200"
    using assms Map_has_delete[of u "pendingNotifications (setFor u now ?s1)"]
    by (simp add: fetch_post route_post_check cleanup_pending Map_has_def Map_get_def)
  from p1 p2 p3 p4 p5 c1 c2 show ?thesis
    by (simp add: takeFor_setFor)
qed

theorem C4_take_once_witness:
  "truthy (Str (ascii ''bob''))
   \<and> \<not> Map_has (pendingNotifications init) (Str (ascii ''bob''))
   \<and> fetch (post ''/check-notification'' (Str (ascii ''bob''))) 0 0 init =
       (jsonResponse No_notification 200, init)
   \<and> isActive (Str (ascii ''bob''))
       (cleanupInactiveUsers 7 (registerOrTouch (Str (ascii ''bob'')) 5 init))
   \<and> fst (fetch (post ''/check-notification'' (Str (ascii ''bob''))) 8 8
            (snd (fetch (post ''/notify'' (Str (ascii ''bob''))) 7 7
                   (registerOrTouch (Str (ascii ''bob'')) 5 init)))) =
       jsonResponse (Has_notification \<lparr>ntype = ''sound'', timestamp = 7\<rparr>) 200
   \<and> fst (fetch (post ''/check-notification'' (Str (ascii ''bob''))) 9 9
            (snd (fetch (post ''/check-notification'' (Str (ascii ''bob''))) 8 8
                   (snd (fetch (post ''/notify'' (Str (ascii ''bob''))) 7 7
                          (registerOrTouch (Str (ascii ''bob'')) 5 init)))))) =
       jsonResponse No_notification 200"
proof -
  have h: "truthy (Str (ascii ''bob''))" by (simp add: ascii_def)
  have e: "\<not> Map_has (pendingNotifications init) (Str (ascii ''bob''))"
    by (simp add: init_def Map_has_def)
  have i: "isActive (Str (ascii ''bob''))
             (cleanupInactiveUsers 7 (registerOrTouch (Str (ascii ''bob'')) 5 init))"
    by (simp add: registerOrTouch_init cleanup_single isActive_single)
  note T1 = C4_take_once[OF h, of 0 init 0 0 0 0 0 0]
  note T2 = C4_take_once[OF h, of 0 "registerOrTouch (Str (ascii ''bob'')) 5 init" 7 7 8 8 9 9]
  from T1 e have c: "fetch (post ''/check-notification'' (Str (ascii ''bob''))) 0 0 init =
       (jsonResponse No_notification 200, cleanupInactiveUsers 0 init)"
    by blast
  from T2 i have d: "fst (fetch (post ''/check-notification'' (Str (ascii ''bob''))) 8 8
            (snd (fetch (post ''/notify'' (Str (ascii ''bob''))) 7 7
                   (registerOrTouch (Str (ascii ''bob'')) 5 init)))) =
       jsonResponse (Has_notification \<lparr>ntype = ''sound'', timestamp = 7\<rparr>) 200"
    by blast
  from T2 i have f: "fst (fetch (post ''/check-notification'' (Str (ascii ''bob''))) 9 9
            (snd (fetch (post ''/check-notification'' (Str (ascii ''bob''))) 8 8
                   (snd (fetch (post ''/notify'' (Str (ascii ''bob''))) 7 7
                          (registerOrTouch (Str (ascii ''bob'')) 5 init)))))) =
       jsonResponse No_notification 200"
    by blast
  from h e i c d f show ?thesis
    by (simp only: cleanup_init simp_thms)
qed

text \<open>
  C5. In every state the worker reaches from the empty one, the keys of the mailbox are
  distinct: at most one record per username. Setting twice is setting once with the later
  time, and leaves exactly one record for the user, stamped \<open>t2\<close>; a \<^verbatim>\<open>/notify\<close> request
  that succeeds leaves exactly one record for its user, stamped with its own time,
  whatever was pending before.
\<close>

theorem C5_single_slot:
  "distinct (map fst (pendingNotifications (run init evs)))
   \<and> setFor u t2 (setFor u t1 s) = setFor u t2 s
   \<and> filter (\<lambda>(k, n). k = u)
        (pendingNotifications (setFor u t2 (setFor u t1 (run init evs)))) =
       [(u, \<lparr>ntype = ''sound'', timestamp = t2\<rparr>)]
   \<and> filter (\<lambda>(k, n). k = u)
        (pendingNotifications (snd (fetch (post ''/notify'' u) now0 t2 (run init evs)))) =
       (if truthy u \<and> isActive u (cleanupInactiveUsers now0 (run init evs))
        then [(u, \<lparr>ntype = ''sound'', timestamp = t2\<rparr>)]
        else filter (\<lambda>(k, n). k = u) (pendingNotifications (run init evs)))"
proof -
  let ?s = "run init evs"
  have w: "distinct_keys ?s"
    by (rule distinct_keys_run[OF distinct_keys_init])
  then have d: "distinct (map fst (pendingNotifications ?s))"
    by (simp add: distinct_keys_def)
  have f: "filter (\<lambda>(k, n). k = u) (pendingNotifications (setFor u t2 ?s)) =
             [(u, \<lparr>ntype = ''sound'', timestamp = t2\<rparr>)]"
    using filter_update_key[OF d] by (simp add: setFor_def Map_set_def)
  have f': "filter (\<lambda>(k, n). k = u)
              (pendingNotifications (setFor u t2 (cleanupInactiveUsers now0 ?s))) =
             [(u, \<lparr>ntype = ''sound'', timestamp = t2\<rparr>)]"
    using filter_update_key[OF d] by (simp add: setFor_def Map_set_def cleanup_pending)
  have n: "filter (\<lambda>(k, n). k = u)
        (pendingNotifications (snd (fetch (post ''/notify'' u) now0 t2 ?s))) =
       (if truthy u \<and> isActive u (cleanupInactiveUsers now0 ?s)
        then [(u, \<lparr>ntype = ''sound'', timestamp = t2\<rparr>)]
        else filter (\<lambda>(k, n). k = u) (pendingNotifications ?s))"
    using f' by (simp add: fetch_post route_post_notify cleanup_pending)
  from d f n show ?thesis by (simp add: setFor_setFor)
qed

text \<open>
  C6. For a non-empty username, \<^verbatim>\<open>/notify\<close> answers 404 exactly when the user has no
  record after the sweep, and then the mailbox is the one it was; when the user has a
  record it answers success and the mailbox holds a notification of kind "sound", stamped
  \<open>now\<close>, for the user.
\<close>

theorem C6_notify_not_found:
  assumes "truthy u"
  shows "fetch (post ''/notify'' u) now0 now s =
           (if isActive u (cleanupInactiveUsers now0 s)
            then (jsonResponse Success 200, setFor u now (cleanupInactiveUsers now0 s))
            else (jsonResponse (Failure ''User not found'') 404, cleanupInactiveUsers now0 s))
       \<and> (status (fst (fetch (post ''/notify'' u) now0 now s)) = 404) =
           (\<not> isActive u (cleanupInactiveUsers now0 s))
       \<and> pendingNotifications (snd (fetch (post ''/notify'' u) now0 now s)) =
           (if isActive u (cleanupInactiveUsers now0 s)
            then Map_set u \<lparr>ntype = ''sound'', timestamp = now\<rparr> (pendingNotifications s)
            else pendingNotifications s)
       \<and> Map_get (Map_set u \<lparr>ntype = ''sound'', timestamp = now\<rparr> (pendingNotifications s)) u =
           Some \<lparr>ntype = ''sound'', timestamp = now\<rparr>"
  using assms
  by (simp add: fetch_post route_post_notify cleanup_pending setFor_def jsonResponse_def
      Map_get_def Map_set_def update_conv')

theorem C6_notify_not_found_witness:
  "truthy (Str (ascii ''carol''))
   \<and> fetch (post ''/notify'' (Str (ascii ''carol''))) 0 0 init =
       (jsonResponse (Failure ''User not found'') 404, init)
   \<and> fetch (post ''/notify'' (Str (ascii ''carol''))) 7 7
         (registerOrTouch (Str (ascii ''carol'')) 5 init) =
       (jsonResponse Success 200,
        setFor (Str (ascii ''carol'')) 7 (registerOrTouch (Str (ascii ''carol'')) 5 init))"
proof -
  have h: "truthy (Str (ascii ''carol''))" by (simp add: ascii_def)
  have n: "\<not> isActive (Str (ascii ''carol'')) (cleanupInactiveUsers 0 init)"
    unfolding cleanup_init by (simp add: isActive_def Map_has_def init_def)
  have c: "cleanupInactiveUsers 7 (registerOrTouch (Str (ascii ''carol'')) 5 init) =
             registerOrTouch (Str (ascii ''carol'')) 5 init"
    by (simp add: registerOrTouch_init cleanup_single)
  have a: "isActive (Str (ascii ''carol'')) (registerOrTouch (Str (ascii ''carol'')) 5 init)"
    by (simp add: registerOrTouch_init isActive_single)
  show ?thesis
    using h n a C6_notify_not_found[OF h, of 0 0 init]
      C6_notify_not_found[OF h, of 7 7 "registerOrTouch (Str (ascii ''carol'')) 5 init"]
    by (simp add: cleanup_init c)
qed

text \<open>
  C7. \<^verbatim>\<open>/notify-all\<close> answers with the number of records in the swept registry, which is
  the number of users present (0 when there is none), leaves the registry as swept, and
  writes a "sound" notification stamped \<open>now\<close> for every user present and for nobody
  else. A user who was not present and had nothing pending, and who registers afterwards
  by a login or a heartbeat, finds no notification at the next poll.
\<close>

theorem C7_broadcast:
  assumes "distinct (map fst (activeUsers s))" and "truthy u"
    and "path req = ''/login'' \<or> path req = ''/heartbeat''"
  shows "fst (fetch \<lparr>http_method = ''POST'', path = ''/notify-all'', body = b\<rparr> now0 now s) =
           jsonResponse (Notified (count (cleanupInactiveUsers now0 s))) 200
       \<and> count (cleanupInactiveUsers now0 s) = card {k. isActive k (cleanupInactiveUsers now0 s)}
       \<and> activeUsers (snd (fetch \<lparr>http_method = ''POST'', path = ''/notify-all'', body = b\<rparr> now0 now s)) =
           activeUsers (cleanupInactiveUsers now0 s)
       \<and> (\<forall>k. Map_get (pendingNotifications
                  (snd (fetch \<lparr>http_method = ''POST'', path = ''/notify-all'', body = b\<rparr> now0 now s))) k =
               (if isActive k (cleanupInactiveUsers now0 s)
                then Some \<lparr>ntype = ''sound'', timestamp = now\<rparr>
                else Map_get (pendingNotifications s) k))
       \<and> (\<not> isActive u (cleanupInactiveUsers now0 s) \<and> \<not> Map_has (pendingNotifications s) u \<longrightarrow>
            fst (fetch (post ''/check-notification'' u) c0 c
                  (snd (fetch req a0 a
                    (snd (fetch \<lparr>http_method = ''POST'', path = ''/notify-all'', body = b\<rparr> now0 now s))))) =
              jsonResponse No_notification 200)"
proof -
  let ?s1 = "cleanupInactiveUsers now0 s"
  let ?r = "fetch \<lparr>http_method = ''POST'', path = ''/notify-all'', body = b\<rparr> now0 now s"
  have d1: "distinct (map fst (activeUsers ?s1))"
    using assms(1) by (simp add: cleanup_active distinct_map_filter)
  have p1: "fst ?r = jsonResponse (Notified (count ?s1)) 200"
    by (simp add: fetch_notify_all broadcastToAllPresent_def notify_loop_count count_def)
  have p2: "count ?s1 = card {k. isActive k ?s1}"
    by (rule count_card[OF d1])
  have p3: "activeUsers (snd ?r) = activeUsers ?s1"
    by (simp add: fetch_notify_all broadcastToAllPresent_def notify_loop_active)
  have p4: "Map_get (pendingNotifications (snd ?r)) k =
               (if isActive k ?s1 then Some \<lparr>ntype = ''sound'', timestamp = now\<rparr>
                else Map_get (pendingNotifications s) k)" for k
    by (simp add: fetch_notify_all broadcastToAllPresent_def notify_loop_pending Map_get_def
        isActive_keys cleanup_pending)
  have fr: "pendingNotifications (snd (fetch req a0 a (snd ?r))) = pendingNotifications (snd ?r)"
    using assms(3) by (intro fetch_frame_pending) auto
  have p5: "\<not> isActive u ?s1 \<and> \<not> Map_has (pendingNotifications s) u \<longrightarrow>
            fst (fetch (post ''/check-notification'' u) c0 c (snd (fetch req a0 a (snd ?r)))) =
              jsonResponse No_notification 200"
    using p4[of u] by (simp add: fetch_check_pending[OF assms(2)] fr Map_has_def Map_get_def)
  from p1 p2 p3 p4 p5 show ?thesis by blast
qed

theorem C7_broadcast_witness:
  "distinct (map fst (activeUsers (registerOrTouch (Str (ascii ''bob'')) 5 init)))
   \<and> truthy (Str (ascii ''carol''))
   \<and> (path (post ''/heartbeat'' (Str (ascii ''carol''))) = ''/login''
        \<or> path (post ''/heartbeat'' (Str (ascii ''carol''))) = ''/heartbeat'')
   \<and> \<not> isActive (Str (ascii ''carol''))
          (cleanupInactiveUsers 7 (registerOrTouch (Str (ascii ''bob'')) 5 init))
   \<and> \<not> Map_has (pendingNotifications (registerOrTouch (Str (ascii ''bob'')) 5 init))
          (Str (ascii ''carol''))
   \<and> fst (fetch \<lparr>http_method = ''POST'', path = ''/notify-all'', body = Unparseable\<rparr> 7 7
            (registerOrTouch (Str (ascii ''bob'')) 5 init)) =
       jsonResponse (Notified 1) 200
   \<and> Map_get (pendingNotifications
         (snd (fetch \<lparr>http_method = ''POST'', path = ''/notify-all'', body = Unparseable\<rparr> 7 7
                (registerOrTouch (Str (ascii ''bob'')) 5 init)))) (Str (ascii ''bob'')) =
       Some \<lparr>ntype = ''sound'', timestamp = 7\<rparr>
   \<and> fst (fetch (post ''/check-notification'' (Str (ascii ''carol''))) 9 9
            (snd (fetch (post ''/heartbeat'' (Str (ascii ''carol''))) 8 8
              (snd (fetch \<lparr>http_method = ''POST'', path = ''/notify-all'', body = Unparseable\<rparr> 7 7
                     (registerOrTouch (Str (ascii ''bob'')) 5 init)))))) =
       jsonResponse No_notification 200"
proof -
  let ?bob = "Str (ascii ''bob'')" and ?carol = "Str (ascii ''carol'')"
  have h1: "distinct (map fst (activeUsers (registerOrTouch ?bob 5 init)))"
    by (simp add: registerOrTouch_init)
  have h2: "truthy ?carol" by (simp add: ascii_def)
  have h3: "path (post ''/heartbeat'' ?carol) = ''/login''
        \<or> path (post ''/heartbeat'' ?carol) = ''/heartbeat''"
    by (simp add: post_def)
  have c: "cleanupInactiveUsers 7 (registerOrTouch ?bob 5 init) = registerOrTouch ?bob 5 init"
    by (simp add: registerOrTouch_init cleanup_single)
  have ne: "?carol \<noteq> ?bob" by (simp add: ascii_def)
  have h4: "\<not> isActive ?carol (cleanupInactiveUsers 7 (registerOrTouch ?bob 5 init))"
    unfolding c using ne by (simp add: registerOrTouch_init isActive_single)
  have h5: "\<not> Map_has (pendingNotifications (registerOrTouch ?bob 5 init)) ?carol"
    by (simp add: registerOrTouch_init Map_has_def)
  have a: "isActive ?bob (cleanupInactiveUsers 7 (registerOrTouch ?bob 5 init))"
    unfolding c by (simp add: registerOrTouch_init isActive_single)
  have n: "count (cleanupInactiveUsers 7 (registerOrTouch ?bob 5 init)) = 1"
    unfolding c by (simp add: registerOrTouch_init count_def)
  note T = C7_broadcast[OF h1 h2 h3, of Unparseable 7 7 9 9 8 8]
  from T have t1: "fst (fetch \<lparr>http_method = ''POST'', path = ''/notify-all'', body = Unparseable\<rparr> 7 7
            (registerOrTouch ?bob 5 init)) =
       jsonResponse (Notified (count (cleanupInactiveUsers 7 (registerOrTouch ?bob 5 init)))) 200"
    by blast
  from T have t2: "Map_get (pendingNotifications
         (snd (fetch \<lparr>http_method = ''POST'', path = ''/notify-all'', body = Unparseable\<rparr> 7 7
                (registerOrTouch ?bob 5 init)))) ?bob =
       (if isActive ?bob (cleanupInactiveUsers 7 (registerOrTouch ?bob 5 init))
        then Some \<lparr>ntype = ''sound'', timestamp = 7\<rparr>
        else Map_get (pendingNotifications (registerOrTouch ?bob 5 init)) ?bob)"
    by blast
  from T h4 h5 have t3: "fst (fetch (post ''/check-notification'' ?carol) 9 9
            (snd (fetch (post ''/heartbeat'' ?carol) 8 8
              (snd (fetch \<lparr>http_method = ''POST'', path = ''/notify-all'', body = Unparseable\<rparr> 7 7
                     (registerOrTouch ?bob 5 init)))))) =
       jsonResponse No_notification 200"
    by blast
  from h1 h2 h3 h4 h5 t1 t2 t3 a n show ?thesis
    by (simp only: simp_thms if_True)
qed

text \<open>
  C8. \<open>trim\<close> strips white space at both ends only, and yields the empty string exactly
  on the strings made of white space. A login with \<^verbatim>\<open>"  alice  "\<close> answers success
  with the identity \<^verbatim>\<open>"alice"\<close> and registers that key. A login whose username is empty,
  white space only, missing or not a string answers 400 "Invalid username", and the state
  is the swept one: the login itself writes nothing.
\<close>

theorem C8_login_trim:
  "trim (ascii ''  alice  '') = ascii ''alice''
   \<and> fetch (post ''/login'' (Str (ascii ''  alice  ''))) now0 now s =
       (jsonResponse (Login_ok False (ascii ''alice'')) 200,
        (cleanupInactiveUsers now0 s)
          \<lparr>activeUsers :=
             Map_set (Str (ascii ''alice''))
               \<lparr>username = Str (ascii ''alice''), lastSeen = now, loginTime = now\<rparr>
               (activeUsers (cleanupInactiveUsers now0 s))\<rparr>)
   \<and> x = takeWhile is_white_space x @ trim x
             @ rev (takeWhile is_white_space (rev (dropWhile is_white_space x)))
   \<and> (trim x = [] \<longleftrightarrow> list_all is_white_space x)
   \<and> fetch (post ''/login'' (Str x)) now0 now s =
       (if list_all is_white_space x
        then (jsonResponse (Failure ''Invalid username'') 400, cleanupInactiveUsers now0 s)
        else (jsonResponse (Login_ok (trim x = ADMIN_USERNAME) (trim x)) 200,
              if trim x = ADMIN_USERNAME then cleanupInactiveUsers now0 s
              else (cleanupInactiveUsers now0 s)
                     \<lparr>activeUsers :=
                        Map_set (Str (trim x))
                          \<lparr>username = Str (trim x), lastSeen = now, loginTime = now\<rparr>
                          (activeUsers (cleanupInactiveUsers now0 s))\<rparr>))
   \<and> login (post ''/login'' (Str x)) now s =
       (if list_all is_white_space x
        then Inr (jsonResponse (Failure ''Invalid username'') 400, s)
        else Inr (jsonResponse (Login_ok (trim x = ADMIN_USERNAME) (trim x)) 200,
                  if trim x = ADMIN_USERNAME then s
                  else s\<lparr>activeUsers :=
                           Map_set (Str (trim x))
                             \<lparr>username = Str (trim x), lastSeen = now, loginTime = now\<rparr>
                             (activeUsers s)\<rparr>))
   \<and> fetch (post ''/login'' (Str [])) now0 now s =
       (jsonResponse (Failure ''Invalid username'') 400, cleanupInactiveUsers now0 s)
   \<and> fetch (post ''/login'' Undefined) now0 now s =
       (jsonResponse (Failure ''Invalid username'') 400, cleanupInactiveUsers now0 s)
   \<and> fetch (post ''/login'' Null) now0 now s =
       (jsonResponse (Failure ''Invalid username'') 400, cleanupInactiveUsers now0 s)
   \<and> fetch (post ''/login'' (Bool b)) now0 now s =
       (jsonResponse (Failure ''Invalid username'') 400, cleanupInactiveUsers now0 s)
   \<and> fetch (post ''/login'' (Num n)) now0 now s =
       (jsonResponse (Failure ''Invalid username'') 400, cleanupInactiveUsers now0 s)"
proof -
  have w: "\<not> list_all is_white_space (ascii ''  alice  '')"
    by (simp add: ascii_def is_white_space_def white_space_def)
  have a: "fetch (post ''/login'' (Str (ascii ''  alice  ''))) now0 now s =
       (jsonResponse (Login_ok False (ascii ''alice'')) 200,
        (cleanupInactiveUsers now0 s)
          \<lparr>activeUsers :=
             Map_set (Str (ascii ''alice''))
               \<lparr>username = Str (ascii ''alice''), lastSeen = now, loginTime = now\<rparr>
               (activeUsers (cleanupInactiveUsers now0 s))\<rparr>)"
    using w alice_not_admin by (simp add: fetch_login_Str trim_alice)
  have e: "fetch (post ''/login'' (Str [])) now0 now s =
       (jsonResponse (Failure ''Invalid username'') 400, cleanupInactiveUsers now0 s)"
    by (simp add: fetch_login_Str)
  show ?thesis
    using a e trim_alice trim_Nil_iff[of x] fetch_login_Str[of x now0 now s]
      trim_decompose[of x] login_post_Str[of "''/login''" x now s]
      fetch_login_not_string[of Undefined now0 now s] fetch_login_not_string[of Null now0 now s]
      fetch_login_not_string[of "Bool b" now0 now s] fetch_login_not_string[of "Num n" now0 now s]
    by simp
qed

theorem C8_login_trim_witness:
  "truthy (Str (ascii ''   ''))
   \<and> list_all is_white_space (ascii ''   '')
   \<and> trim (ascii ''   '') = []
   \<and> login (post ''/login'' (Str (ascii ''   ''))) 5 init =
       Inr (jsonResponse (Failure ''Invalid username'') 400, init)
   \<and> fetch (post ''/login'' (Str (ascii ''   ''))) 5 5 init =
       (jsonResponse (Failure ''Invalid username'') 400, init)
   \<and> fetch (post ''/login'' (Str (ascii ''  alice  ''))) 5 5 init =
       (jsonResponse (Login_ok False (ascii ''alice'')) 200,
        \<lparr>activeUsers =
           [(Str (ascii ''alice''),
             \<lparr>username = Str (ascii ''alice''), lastSeen = 5, loginTime = 5\<rparr>)],
         pendingNotifications = []\<rparr>)"
proof -
  have t: "truthy (Str (ascii ''   ''))" by (simp add: ascii_def)
  have w: "list_all is_white_space (ascii ''   '')"
    by (simp add: ascii_def is_white_space_def white_space_def)
  note T = C8_login_trim[where x = "ascii ''   ''" and s = init and now0 = 5 and now = 5]
  from T w have e: "trim (ascii ''   '') = []" by blast
  from T w have l: "login (post ''/login'' (Str (ascii ''   ''))) 5 init =
       Inr (jsonResponse (Failure ''Invalid username'') 400, init)"
    by simp
  from T w have f: "fetch (post ''/login'' (Str (ascii ''   ''))) 5 5 init =
       (jsonResponse (Failure ''Invalid username'') 400, init)"
    by (simp add: cleanup_init)
  have i: "init\<lparr>activeUsers :=
             Map_set (Str (ascii ''alice''))
               \<lparr>username = Str (ascii ''alice''), lastSeen = 5, loginTime = 5\<rparr>
               (activeUsers init)\<rparr> =
           \<lparr>activeUsers =
              [(Str (ascii ''alice''),
                \<lparr>username = Str (ascii ''alice''), lastSeen = 5, loginTime = 5\<rparr>)],
            pendingNotifications = []\<rparr>"
    by (simp add: init_def Map_set_def)
  from T have g: "fetch (post ''/login'' (Str (ascii ''  alice  ''))) 5 5 init =
       (jsonResponse (Login_ok False (ascii ''alice'')) 200,
        \<lparr>activeUsers =
           [(Str (ascii ''alice''),
             \<lparr>username = Str (ascii ''alice''), lastSeen = 5, loginTime = 5\<rparr>)],
         pendingNotifications = []\<rparr>)"
    unfolding cleanup_init i by blast
  from t w e l f g show ?thesis by blast
qed

text \<open>
  C9. Every request other than the preflight is answered by running its route on the
  state from which the sweep at \<open>now0\<close> has removed exactly the records with
  \<open>now0 - lastSeen > 10000\<close>; so the answer and the resulting state do not depend on
  such records: two states with the same fresh records and the same mailbox give the same
  result.
\<close>

theorem C9_sweep_first:
  assumes "distinct (map fst (activeUsers s))" and "http_method req \<noteq> ''OPTIONS''"
  shows "fetch req now0 now s =
           (case route req now
                   (s\<lparr>activeUsers := filter (\<lambda>(u, d). now0 - lastSeen d \<le> 10000) (activeUsers s)\<rparr>) of
              Inr r \<Rightarrow> r
            | Inl e \<Rightarrow>
                (jsonResponse (Error ''Internal server error'') 500,
                 s\<lparr>activeUsers := filter (\<lambda>(u, d). now0 - lastSeen d \<le> 10000) (activeUsers s)\<rparr>))
       \<and> (\<forall>s'. distinct (map fst (activeUsers s'))
               \<and> filter (\<lambda>(u, d). now0 - lastSeen d \<le> 10000) (activeUsers s') =
                  filter (\<lambda>(u, d). now0 - lastSeen d \<le> 10000) (activeUsers s)
               \<and> pendingNotifications s' = pendingNotifications s
             \<longrightarrow> fetch req now0 now s' = fetch req now0 now s)"
proof -
  have f: "(\<lambda>(k, d). \<not> now0 - lastSeen d > timeout) = (\<lambda>(u, d). now0 - lastSeen d \<le> 10000)"
    by (auto simp: timeout_def fun_eq_iff)
  have c: "cleanupInactiveUsers now0 t =
             t\<lparr>activeUsers := filter (\<lambda>(u, d). now0 - lastSeen d \<le> 10000) (activeUsers t)\<rparr>"
    if "distinct (map fst (activeUsers t))" for t
    using cleanup_eq[OF that, of now0] unfolding f .
  have a: "fetch req now0 now s =
           (case route req now
                   (s\<lparr>activeUsers := filter (\<lambda>(u, d). now0 - lastSeen d \<le> 10000) (activeUsers s)\<rparr>) of
              Inr r \<Rightarrow> r
            | Inl e \<Rightarrow>
                (jsonResponse (Error ''Internal server error'') 500,
                 s\<lparr>activeUsers := filter (\<lambda>(u, d). now0 - lastSeen d \<le> 10000) (activeUsers s)\<rparr>))"
    using assms(2) by (simp add: fetch_def Let_def c[OF assms(1)])
  have b: "fetch req now0 now s' = fetch req now0 now s"
    if d: "distinct (map fst (activeUsers s'))"
      and e: "filter (\<lambda>(u, d). now0 - lastSeen d \<le> 10000) (activeUsers s') =
              filter (\<lambda>(u, d). now0 - lastSeen d \<le> 10000) (activeUsers s)"
      and p: "pendingNotifications s' = pendingNotifications s" for s'
  proof -
    have "cleanupInactiveUsers now0 s' = cleanupInactiveUsers now0 s"
      unfolding c[OF d] c[OF assms(1)] using e p by (cases s, cases s') simp
    then show ?thesis
      using assms(2) by (simp add: fetch_def Let_def)
  qed
  from a b show ?thesis by blast
qed

theorem C9_sweep_first_witness:
  "distinct (map fst (activeUsers (registerOrTouch (Str (ascii ''bob'')) 0 init)))
   \<and> http_method (get ''/users'') \<noteq> ''OPTIONS''
   \<and> distinct (map fst (activeUsers init))
   \<and> filter (\<lambda>(u, d). 20000 - lastSeen d \<le> 10000) (activeUsers init) =
       filter (\<lambda>(u, d). 20000 - lastSeen d \<le> 10000)
         (activeUsers (registerOrTouch (Str (ascii ''bob'')) 0 init))
   \<and> pendingNotifications init = pendingNotifications (registerOrTouch (Str (ascii ''bob'')) 0 init)
   \<and> fetch (get ''/users'') 20000 20000 (registerOrTouch (Str (ascii ''bob'')) 0 init) =
       (jsonResponse (Users [] 0) 200, init)
   \<and> fetch (get ''/users'') 20000 20000 init =
       fetch (get ''/users'') 20000 20000 (registerOrTouch (Str (ascii ''bob'')) 0 init)"
proof -
  let ?s = "registerOrTouch (Str (ascii ''bob'')) 0 init"
  have h1: "distinct (map fst (activeUsers ?s))"
    by (simp add: registerOrTouch_init)
  have h2: "http_method (get ''/users'') \<noteq> ''OPTIONS''"
    by (simp add: get_def)
  have h3: "distinct (map fst (activeUsers init))"
    by (simp add: init_def)
  have h4: "filter (\<lambda>(u, d). 20000 - lastSeen d \<le> 10000) (activeUsers init) =
       filter (\<lambda>(u, d). 20000 - lastSeen d \<le> 10000) (activeUsers ?s)"
    unfolding registerOrTouch_init by (simp add: init_def)
  have h5: "pendingNotifications init = pendingNotifications ?s"
    unfolding registerOrTouch_init by (simp add: init_def)
  note T = C9_sweep_first[OF h1 h2, of 20000 20000]
  have sw: "?s\<lparr>activeUsers := filter (\<lambda>(u, d). 20000 - lastSeen d \<le> 10000) (activeUsers ?s)\<rparr> = init"
    unfolding registerOrTouch_init by (simp add: init_def)
  have r: "route (get ''/users'') 20000 init = Inr (jsonResponse (Users [] 0) 200, init)"
    by (simp add: route_def get_def users_def listActive_def init_def)
  from T have "fetch (get ''/users'') 20000 20000 ?s =
       (case route (get ''/users'') 20000
               (?s\<lparr>activeUsers := filter (\<lambda>(u, d). 20000 - lastSeen d \<le> 10000) (activeUsers ?s)\<rparr>) of
          Inr r \<Rightarrow> r
        | Inl e \<Rightarrow>
            (jsonResponse (Error ''Internal server error'') 500,
             ?s\<lparr>activeUsers := filter (\<lambda>(u, d). 20000 - lastSeen d \<le> 10000) (activeUsers ?s)\<rparr>))"
    by blast
  then have t1: "fetch (get ''/users'') 20000 20000 ?s = (jsonResponse (Users [] 0) 200, init)"
    unfolding sw r by simp
  from T h3 h4 h5 have t2: "fetch (get ''/users'') 20000 20000 init =
       fetch (get ''/users'') 20000 20000 ?s"
    by blast
  from h1 h2 h3 h4 h5 t1 t2 show ?thesis by blast
qed

text \<open>
  C10. The sweep and the removal at logout leave the mailbox as it is. After a
  \<^verbatim>\<open>/notify\<close> that succeeded for \<open>u\<close>, whatever request comes next at whatever time
  (a logout of \<open>u\<close>, or any request late enough for the record of \<open>u\<close> to be swept),
  other than a notify or a poll, the next \<^verbatim>\<open>/check-notification\<close> of \<open>u\<close> still
  delivers that notification.
\<close>

theorem C10_mailbox_outlives_presence:
  assumes "truthy u" and "isActive u (cleanupInactiveUsers now0 s)"
    and "path req \<noteq> ''/notify''" and "path req \<noteq> ''/notify-all''"
    and "path req \<noteq> ''/check-notification''"
  shows "pendingNotifications (cleanupInactiveUsers t s') = pendingNotifications s'
       \<and> pendingNotifications (remove k s') = pendingNotifications s'
       \<and> fst (fetch (post ''/check-notification'' u) c0 c
                (snd (fetch req a0 a (snd (fetch (post ''/notify'' u) now0 now s))))) =
           jsonResponse (Has_notification \<lparr>ntype = ''sound'', timestamp = now\<rparr>) 200"
proof -
  let ?s1 = "snd (fetch (post ''/notify'' u) now0 now s)"
  have n: "?s1 = setFor u now (cleanupInactiveUsers now0 s)"
    using assms(1,2) by (simp add: fetch_post route_post_notify)
  have g: "Map_get (pendingNotifications ?s1) u = Some \<lparr>ntype = ''sound'', timestamp = now\<rparr>"
    unfolding n by (simp add: setFor_def Map_get_def Map_set_def update_conv')
  have fr: "pendingNotifications (snd (fetch req a0 a ?s1)) = pendingNotifications ?s1"
    by (rule fetch_frame_pending[OF assms(3,4,5)])
  have d: "fst (fetch (post ''/check-notification'' u) c0 c (snd (fetch req a0 a ?s1))) =
           jsonResponse (Has_notification \<lparr>ntype = ''sound'', timestamp = now\<rparr>) 200"
    by (simp add: fetch_check_pending[OF assms(1)] fr g)
  from d show ?thesis
    by (simp add: cleanup_pending remove_def)
qed

theorem C10_mailbox_outlives_presence_witness:
  "truthy (Str (ascii ''bob''))
   \<and> isActive (Str (ascii ''bob''))
       (cleanupInactiveUsers 7 (registerOrTouch (Str (ascii ''bob'')) 5 init))
   \<and> path (get ''/health'') \<noteq> ''/notify'' \<and> path (get ''/health'') \<noteq> ''/notify-all''
   \<and> path (get ''/health'') \<noteq> ''/check-notification''
   \<and> fst (fetch (get ''/health'') 30000 30000
            (snd (fetch (post ''/notify'' (Str (ascii ''bob''))) 7 7
                   (registerOrTouch (Str (ascii ''bob'')) 5 init)))) =
       jsonResponse (Health 0) 200
   \<and> fst (fetch (post ''/check-notification'' (Str (ascii ''bob''))) 30001 30001
            (snd (fetch (get ''/health'') 30000 30000
                   (snd (fetch (post ''/notify'' (Str (ascii ''bob''))) 7 7
                          (registerOrTouch (Str (ascii ''bob'')) 5 init)))))) =
       jsonResponse (Has_notification \<lparr>ntype = ''sound'', timestamp = 7\<rparr>) 200"
proof -
  let ?bob = "Str (ascii ''bob'')"
  have h1: "truthy ?bob" by (simp add: ascii_def)
  have h2: "isActive ?bob (cleanupInactiveUsers 7 (registerOrTouch ?bob 5 init))"
    by (simp add: registerOrTouch_init cleanup_single isActive_single)
  have h3: "path (get ''/health'') \<noteq> ''/notify''" by (simp add: get_def)
  have h4: "path (get ''/health'') \<noteq> ''/notify-all''" by (simp add: get_def)
  have h5: "path (get ''/health'') \<noteq> ''/check-notification''" by (simp add: get_def)
  have s1: "snd (fetch (post ''/notify'' ?bob) 7 7 (registerOrTouch ?bob 5 init)) =
      \<lparr>activeUsers = [(?bob, \<lparr>username = ?bob, lastSeen = 5, loginTime = 5\<rparr>)],
       pendingNotifications = [(?bob, \<lparr>ntype = ''sound'', timestamp = 7\<rparr>)]\<rparr>"
    using h1
    by (simp add: fetch_post route_post_notify registerOrTouch_init cleanup_single
        isActive_single setFor_def Map_set_def)
  have e: "fst (fetch (get ''/health'') 30000 30000
            (snd (fetch (post ''/notify'' ?bob) 7 7 (registerOrTouch ?bob 5 init)))) =
       jsonResponse (Health 0) 200"
    unfolding s1
    by (simp add: fetch_def get_def Let_def cleanup_single route_def health_def count_def)
  from C10_mailbox_outlives_presence[OF h1 h2 h3 h4 h5, of 0 init ?bob 30001 30001 30000 30000 7]
  have t: "fst (fetch (post ''/check-notification'' ?bob) 30001 30001
            (snd (fetch (get ''/health'') 30000 30000
                   (snd (fetch (post ''/notify'' ?bob) 7 7 (registerOrTouch ?bob 5 init)))))) =
       jsonResponse (Has_notification \<lparr>ntype = ''sound'', timestamp = 7\<rparr>) 200"
    by blast
  from h1 h2 h3 h4 h5 e t show ?thesis by blast
qed

end
